theory Spec2Isabelle
  imports Complex_Main
begin

section \<open>Values of the platform\<close>

text \<open>
  The utilities of \<^verbatim>\<open>src/http/js/utils.js\<close> run in a browser. What the platform hands
  to them is modelled as data: a thrown JavaScript value, a fetch response, and the
  outcome of one call of \<^verbatim>\<open>fetch\<close>. JavaScript numbers are modelled as mathematical
  numbers (\<open>nat\<close> for counters and status codes, \<open>real\<close> for durations and the
  multiplier); rounding, NaN and infinities of IEEE doubles are outside the model.
\<close>

datatype thrown =
    Undefined                 \<comment> \<open>the value of \<^verbatim>\<open>lastError\<close> before any assignment\<close>
  | HttpError nat string      \<comment> \<open>\<^verbatim>\<open>new Error(`HTTP ${status}: ${statusText}`)\<close>\<close>
  | TypeError string          \<comment> \<open>what a rejected \<^verbatim>\<open>fetch\<close> promise carries\<close>
  | SyntaxError               \<comment> \<open>a body that is not JSON\<close>
  | InvalidCharacterError     \<comment> \<open>\<^verbatim>\<open>classList.add\<close> of a token with white space\<close>

record response =
  status :: nat
  statusText :: string
  body :: string

text \<open>
  \<^verbatim>\<open>response.ok\<close> is a read-only property of the Fetch standard: it is true exactly
  when the status is in the range 200 to 299.
\<close>

definition ok :: "response \<Rightarrow> bool" where
  "ok r \<longleftrightarrow> 200 \<le> status r \<and> status r \<le> 299"

datatype outcome = Resolved response | Rejected thrown

section \<open>fetchWithRetry\<close>

text \<open>
  The destructured retry configuration (lines 20 to 26). \<open>onRetry\<close> tells whether a callback
  was supplied (anything truthy); what the callback is called with is recorded in the trace
  of events. The callback is taken to return normally.
\<close>

record retryConfig =
  maxRetries :: nat
  initialDelay :: real
  maxDelay :: real
  backoffMultiplier :: real
  onRetry :: bool

definition defaults :: retryConfig where
  "defaults = \<lparr>maxRetries = 3, initialDelay = 1000, maxDelay = 30000,
     backoffMultiplier = 2, onRetry = False\<rparr>"

text \<open>
  The effects of one invocation, in the order they happen: a call of \<^verbatim>\<open>fetch\<close> (with the
  value of \<^verbatim>\<open>attempt\<close>), a call of the \<^verbatim>\<open>onRetry\<close> callback with its two arguments,
  a call of \<^verbatim>\<open>sleep\<close> with its argument, and a call of \<^verbatim>\<open>response.json()\<close>.
\<close>

datatype event = Fetch nat | OnRetry nat real | Sleep real | Json

text \<open>
  The body of the \<^verbatim>\<open>try\<close> block (lines 33 to 46) either returns the response, throws
  (the rejection of \<^verbatim>\<open>fetch\<close>, or the error made at line 42), or runs to its end after
  assigning \<^verbatim>\<open>lastError\<close> at line 46.
\<close>

datatype try_result = Returned response | Threw thrown | Completed thrown

definition try_block :: "outcome \<Rightarrow> try_result" where
  "try_block out =
     (case out of
        Rejected e \<Rightarrow> Threw e
      | Resolved r \<Rightarrow>
          if ok r then Returned r
          else if 400 \<le> status r \<and> status r < 500
            then Threw (HttpError (status r) (statusText r))
          else Completed (HttpError (status r) (statusText r)))"

text \<open>
  The \<^verbatim>\<open>catch\<close> clause (lines 48 to 55) receives every value thrown inside the
  \<^verbatim>\<open>try\<close> block, the error of line 42 included: it assigns \<^verbatim>\<open>lastError\<close> and leaves
  the loop only on the last attempt.
\<close>

datatype flow = Return response | Break thrown | Continue thrown

definition try_catch :: "retryConfig \<Rightarrow> nat \<Rightarrow> outcome \<Rightarrow> flow" where
  "try_catch c attempt out =
     (case try_block out of
        Returned r \<Rightarrow> Return r
      | Threw e \<Rightarrow> if attempt = maxRetries c then Break e else Continue e
      | Completed e \<Rightarrow> Continue e)"

text \<open>Line 66: the next delay.\<close>

definition nextDelay :: "retryConfig \<Rightarrow> real \<Rightarrow> real" where
  "nextDelay c delay = min (delay * backoffMultiplier c) (maxDelay c)"

text \<open>Lines 59 to 61: the callback is called when there is one.\<close>

definition notify :: "retryConfig \<Rightarrow> nat \<Rightarrow> real \<Rightarrow> event list" where
  "notify c n delay = (if onRetry c then [OnRetry n delay] else [])"

definition prepend :: "event list \<Rightarrow> event list \<times> 'a \<Rightarrow> event list \<times> 'a" where
  "prepend es p = (es @ fst p, snd p)"

text \<open>
  The \<^verbatim>\<open>for\<close> loop (lines 31 to 68) and the final \<^verbatim>\<open>throw lastError\<close> (line 71).
  \<open>fetch k\<close> is the outcome of the call of \<^verbatim>\<open>fetch(url, options)\<close> made in iteration
  \<open>k\<close>; the result is the trace of effects and either the value thrown (\<open>Inl\<close>) or the
  response returned (\<open>Inr\<close>). The url and the options are passed to \<^verbatim>\<open>fetch\<close> as they
  are and do not appear. Every call of \<^verbatim>\<open>fetch\<close> is taken to settle (it resolves or it
  rejects) and every timer of \<^verbatim>\<open>sleep\<close> to fire.
\<close>

function loop ::
  "retryConfig \<Rightarrow> (nat \<Rightarrow> outcome) \<Rightarrow> nat \<Rightarrow> real \<Rightarrow> thrown
     \<Rightarrow> event list \<times> (thrown + response)" where
  "loop c fetch attempt delay lastError =
     (if attempt \<le> maxRetries c then
        (case try_catch c attempt (fetch attempt) of
           Return r \<Rightarrow> ([Fetch attempt], Inr r)
         | Break e \<Rightarrow> ([Fetch attempt], Inl e)
         | Continue e \<Rightarrow>
             if attempt < maxRetries c then
               prepend (Fetch attempt # notify c (attempt + 1) delay @ [Sleep delay])
                 (loop c fetch (attempt + 1) (nextDelay c delay) e)
             else
               prepend [Fetch attempt] (loop c fetch (attempt + 1) delay e))
      else ([], Inl lastError))"
  by pat_completeness auto
termination
  by (relation "measure (\<lambda>(c, fetch, attempt, delay, lastError). maxRetries c + 1 - attempt)")
    auto

declare loop.simps [simp del]

definition fetchWithRetry ::
  "retryConfig \<Rightarrow> (nat \<Rightarrow> outcome) \<Rightarrow> event list \<times> (thrown + response)" where
  "fetchWithRetry c fetch = loop c fetch 0 (initialDelay c) Undefined"

section \<open>fetchJsonWithRetry\<close>

text \<open>
  Lines 91 to 94. \<open>parse\<close> is the platform's JSON parser applied to the body of the
  response; \<open>None\<close> is a body that does not parse.
\<close>

definition fetchJsonWithRetry ::
  "(string \<Rightarrow> 'j option) \<Rightarrow> retryConfig \<Rightarrow> (nat \<Rightarrow> outcome)
     \<Rightarrow> event list \<times> (thrown + 'j)" where
  "fetchJsonWithRetry parse c fetch =
     (case fetchWithRetry c fetch of
        (tr, Inl e) \<Rightarrow> (tr, Inl e)
      | (tr, Inr r) \<Rightarrow>
          (tr @ [Json],
           case parse (body r) of None \<Rightarrow> Inl SyntaxError | Some v \<Rightarrow> Inr v))"

section \<open>showStatus\<close>

text \<open>
  An element has its text and its list of class tokens; the document maps an id to the
  element that \<^verbatim>\<open>getElementById\<close> finds, \<open>None\<close> for \<^verbatim>\<open>null\<close>.
\<close>

record element =
  textContent :: string
  classList :: "string list"

type_synonym document = "string \<Rightarrow> element option"

definition classList_remove :: "string list \<Rightarrow> string list \<Rightarrow> string list" where
  "classList_remove tokens cl = filter (\<lambda>t. t \<notin> set tokens) cl"

definition classList_add :: "string \<Rightarrow> string list \<Rightarrow> string list" where
  "classList_add token cl = (if token \<in> set cl then cl else cl @ [token])"

text \<open>Line 109: the classes that are removed.\<close>

definition status_classes :: "string list" where
  "status_classes =
     [''status-info'', ''status-success'', ''status-error'', ''status-warning'',
      ''status-running'']"

text \<open>
  \<^verbatim>\<open>classMap[type]\<close> (lines 112 to 120) reads a property of an object literal: one of
  its five own properties, or a property inherited from \<^verbatim>\<open>Object.prototype\<close> (a function
  or an object, which is truthy and whose string has white space), or \<^verbatim>\<open>undefined\<close>.
\<close>

datatype property = Own string | Inherited | Absent

definition object_prototype_keys :: "string list" where
  "object_prototype_keys =
     [''constructor'', ''hasOwnProperty'', ''isPrototypeOf'', ''propertyIsEnumerable'',
      ''toLocaleString'', ''toString'', ''valueOf'', ''__proto__'',
      ''__defineGetter__'', ''__defineSetter__'', ''__lookupGetter__'',
      ''__lookupSetter__'']"

definition classMap :: "string \<Rightarrow> property" where
  "classMap t =
     (if t = ''info'' then Own ''status-info''
      else if t = ''success'' then Own ''status-success''
      else if t = ''running'' then Own ''status-running''
      else if t = ''error'' then Own ''status-error''
      else if t = ''warning'' then Own ''status-warning''
      else if t \<in> set object_prototype_keys then Inherited
      else Absent)"

text \<open>
  Lines 102 to 123. The third argument is optional and defaults to \<^verbatim>\<open>'info'\<close>. The
  result is the document after the call and the value thrown, if any.
\<close>

definition showStatus ::
  "document \<Rightarrow> string \<Rightarrow> string \<Rightarrow> string option \<Rightarrow> document \<times> thrown option" where
  "showStatus doc elementId message type_arg =
     (let kind = (case type_arg of None \<Rightarrow> ''info'' | Some t \<Rightarrow> t) in
      case doc elementId of
        None \<Rightarrow> (doc, None)
      | Some el \<Rightarrow>
          let e1 = el\<lparr>textContent := message\<rparr>;
              e2 = e1\<lparr>classList := classList_remove status_classes (classList e1)\<rparr>
          in (case classMap kind of
                Own cls \<Rightarrow>
                  (doc(elementId \<mapsto> e2\<lparr>classList := classList_add cls (classList e2)\<rparr>),
                   None)
              | Inherited \<Rightarrow> (doc(elementId \<mapsto> e2), Some InvalidCharacterError)
              | Absent \<Rightarrow> (doc(elementId \<mapsto> e2), None)))"

section \<open>Reading a trace\<close>

fun attempts :: "event list \<Rightarrow> nat list" where
  "attempts [] = []"
| "attempts (Fetch k # es) = k # attempts es"
| "attempts (e # es) = attempts es"

fun waits :: "event list \<Rightarrow> real list" where
  "waits [] = []"
| "waits (Sleep d # es) = d # waits es"
| "waits (e # es) = waits es"

text \<open>The status classes that an element carries.\<close>

definition active :: "element \<Rightarrow> string list" where
  "active el = filter (\<lambda>t. t \<in> set status_classes) (classList el)"

section \<open>Inputs used in the examples\<close>

text \<open>
  The configuration that \<^verbatim>\<open>loadStatus\<close> passes to \<^verbatim>\<open>fetchJsonWithRetry\<close>: three
  retries, one second at first, ten seconds at most, doubling, with a callback.
\<close>

definition loadStatus_retryConfig :: retryConfig where
  "loadStatus_retryConfig = \<lparr>maxRetries = 3, initialDelay = 1000, maxDelay = 10000,
     backoffMultiplier = 2, onRetry = True\<rparr>"

definition defaults_with_callback :: retryConfig where
  "defaults_with_callback = defaults\<lparr>onRetry := True\<rparr>"

definition no_retries :: retryConfig where
  "no_retries = defaults\<lparr>maxRetries := 0, onRetry := True\<rparr>"

definition low_ceiling :: retryConfig where
  "low_ceiling = \<lparr>maxRetries = 3, initialDelay = 1000, maxDelay = 3000,
     backoffMultiplier = 2, onRetry = False\<rparr>"

text \<open>Servers and networks: the outcome of the call of \<^verbatim>\<open>fetch\<close> in each iteration.\<close>

definition not_found_then_ok :: "nat \<Rightarrow> outcome" where
  "not_found_then_ok k =
     (if k = 0 then Resolved \<lparr>status = 404, statusText = ''Not Found'', body = ''''\<rparr>
      else Resolved \<lparr>status = 200, statusText = ''OK'', body = ''{}''\<rparr>)"

definition not_modified_response :: response where
  "not_modified_response = \<lparr>status = 304, statusText = ''Not Modified'', body = ''''\<rparr>"

definition not_modified :: "nat \<Rightarrow> outcome" where
  "not_modified k = Resolved not_modified_response"

definition server_errors :: "nat \<Rightarrow> response" where
  "server_errors k = \<lparr>status = 500 + k, statusText = ''Server Error'', body = ''''\<rparr>"

definition always_server_error :: "nat \<Rightarrow> outcome" where
  "always_server_error k = Resolved (server_errors k)"

definition internal_error :: response where
  "internal_error = \<lparr>status = 500, statusText = ''Internal Server Error'', body = ''''\<rparr>"

definition no_content :: response where
  "no_content = \<lparr>status = 204, statusText = ''No Content'', body = ''''\<rparr>"

definition ok_empty_object :: response where
  "ok_empty_object = \<lparr>status = 200, statusText = ''OK'', body = ''{}''\<rparr>"

definition ok_html :: response where
  "ok_html = \<lparr>status = 200, statusText = ''OK'', body = ''<html>''\<rparr>"

definition two_errors_then :: "response \<Rightarrow> nat \<Rightarrow> outcome" where
  "two_errors_then r k = (if k < 2 then Resolved internal_error else Resolved r)"

definition unavailable :: "nat \<Rightarrow> outcome" where
  "unavailable k =
     Resolved \<lparr>status = 503, statusText = ''Service Unavailable'', body = ''''\<rparr>"

definition unavailable_then_html :: "nat \<Rightarrow> outcome" where
  "unavailable_then_html k =
     (if k = 0
      then Resolved \<lparr>status = 503, statusText = ''Service Unavailable'', body = ''''\<rparr>
      else Resolved ok_html)"

definition unreachable :: "nat \<Rightarrow> outcome" where
  "unreachable k = Rejected (TypeError ''Failed to fetch'')"

text \<open>A parser that accepts the empty object only.\<close>

definition parse_empty_object :: "string \<Rightarrow> unit option" where
  "parse_empty_object s = (if s = ''{}'' then Some () else None)"

text \<open>A page whose status element shows a retry warning and has no version element.\<close>

definition page :: document where
  "page = [''server-status'' \<mapsto>
     \<lparr>textContent = ''Loading...'', classList = [''value'', ''status-warning'']\<rparr>]"

section \<open>Unfolding the loop\<close>

lemma loop_done:
  "maxRetries c < attempt \<Longrightarrow> loop c fetch attempt delay lastError = ([], Inl lastError)"
  by (subst loop.simps) simp

lemma loop_Return:
  "attempt \<le> maxRetries c \<Longrightarrow> try_catch c attempt (fetch attempt) = Return r \<Longrightarrow>
   loop c fetch attempt delay lastError = ([Fetch attempt], Inr r)"
  by (subst loop.simps) simp

lemma loop_Break:
  "attempt \<le> maxRetries c \<Longrightarrow> try_catch c attempt (fetch attempt) = Break e \<Longrightarrow>
   loop c fetch attempt delay lastError = ([Fetch attempt], Inl e)"
  by (subst loop.simps) simp

lemma loop_Continue:
  "attempt < maxRetries c \<Longrightarrow> try_catch c attempt (fetch attempt) = Continue e \<Longrightarrow>
   loop c fetch attempt delay lastError =
     prepend (Fetch attempt # notify c (attempt + 1) delay @ [Sleep delay])
       (loop c fetch (attempt + 1) (nextDelay c delay) e)"
  by (subst loop.simps) simp

lemma loop_Continue_last:
  "attempt = maxRetries c \<Longrightarrow> try_catch c attempt (fetch attempt) = Continue e \<Longrightarrow>
   loop c fetch attempt delay lastError = ([Fetch attempt], Inl e)"
  by (subst loop.simps) (simp add: loop_done prepend_def)

text \<open>The same steps as rewrite rules, for running the loop on given inputs.\<close>

lemma loop_step:
  "attempt < maxRetries c \<Longrightarrow>
   loop c fetch attempt delay lastError =
     (case try_catch c attempt (fetch attempt) of
        Return r \<Rightarrow> ([Fetch attempt], Inr r)
      | Break e \<Rightarrow> ([Fetch attempt], Inl e)
      | Continue e \<Rightarrow>
          prepend (Fetch attempt # notify c (attempt + 1) delay @ [Sleep delay])
            (loop c fetch (attempt + 1) (nextDelay c delay) e))"
  by (subst loop.simps) (simp split: flow.splits)

lemma loop_last:
  "attempt = maxRetries c \<Longrightarrow>
   loop c fetch attempt delay lastError =
     ([Fetch attempt],
      case try_catch c attempt (fetch attempt) of
        Return r \<Rightarrow> Inr r | Break e \<Rightarrow> Inl e | Continue e \<Rightarrow> Inl e)"
  by (subst loop.simps) (simp add: loop_done prepend_def split: flow.splits)

lemmas run_simps =
  fetchWithRetry_def loop_step loop_last try_catch_def try_block_def ok_def
  prepend_def notify_def nextDelay_def

lemma try_catch_ok:
  "ok r \<Longrightarrow> try_catch c attempt (Resolved r) = Return r"
  by (simp add: try_catch_def try_block_def)

lemma try_catch_5xx:
  "500 \<le> status r \<Longrightarrow>
   try_catch c attempt (Resolved r) = Continue (HttpError (status r) (statusText r))"
  by (simp add: try_catch_def try_block_def ok_def)

section \<open>Reading the trace of the loop\<close>

lemma attempts_append: "attempts (xs @ ys) = attempts xs @ attempts ys"
  by (induction xs rule: attempts.induct) simp_all

lemma waits_append: "waits (xs @ ys) = waits xs @ waits ys"
  by (induction xs rule: waits.induct) simp_all

lemma waits_notify [simp]: "waits (notify c n d) = []"
  by (simp add: notify_def)

lemma attempts_notify [simp]: "attempts (notify c n d) = []"
  by (simp add: notify_def)

lemma Fetch_notin_notify [simp]: "Fetch k \<notin> set (notify c n d)"
  by (simp add: notify_def)

lemma Json_notin_loop: "Json \<notin> set (fst (loop c fetch attempt delay lastError))"
proof (induction c fetch attempt delay lastError rule: loop.induct)
  case (1 c fetch attempt delay lastError)
  show ?case
    by (subst loop.simps) (use 1 in \<open>auto simp: prepend_def notify_def split: flow.splits\<close>)
qed

section \<open>Client errors\<close>

text \<open>
  C1 says that a response with a status from 400 to 499 ends the invocation at once: no
  further attempt, no wait, no call of the callback; in particular a 404 on the first
  attempt. The error of line 42 is thrown inside the \<^verbatim>\<open>try\<close> block, so the
  \<^verbatim>\<open>catch\<close> clause of the same statement receives it and the loop goes on as for a
  server error. With the configuration of \<^verbatim>\<open>loadStatus\<close>, a 404 on the first attempt
  is followed by a call of the callback, a wait of one second and a second attempt, whose
  response is returned: nothing is raised.
\<close>

theorem client_error_is_retried:
  "fetchWithRetry loadStatus_retryConfig not_found_then_ok
   = ([Fetch 0, OnRetry 1 1000, Sleep 1000, Fetch 1], Inr ok_empty_object)"
  by (simp add: run_simps loadStatus_retryConfig_def not_found_then_ok_def
      ok_empty_object_def)

section \<open>Success\<close>

lemma loop_success_last:
  "Fetch k \<in> set (fst (loop c fetch attempt delay lastError)) \<Longrightarrow>
   fetch k = Resolved r \<Longrightarrow> ok r \<Longrightarrow>
   snd (loop c fetch attempt delay lastError) = Inr r
   \<and> last (fst (loop c fetch attempt delay lastError)) = Fetch k"
proof (induction c fetch attempt delay lastError rule: loop.induct)
  case (1 c fetch attempt delay lastError)
  from "1.prems"(1) have le: "attempt \<le> maxRetries c"
    by (cases "attempt \<le> maxRetries c") (simp_all add: loop_done)
  show ?case
  proof (cases "k = attempt")
    case True
    then have "try_catch c attempt (fetch attempt) = Return r"
      using "1.prems" by (simp add: try_catch_ok)
    with le True show ?thesis by (simp add: loop_Return)
  next
    case False
    show ?thesis
    proof (cases "try_catch c attempt (fetch attempt)")
      case (Return r')
      with le False "1.prems"(1) show ?thesis by (simp add: loop_Return)
    next
      case (Break e)
      with le False "1.prems"(1) show ?thesis by (simp add: loop_Break)
    next
      case (Continue e)
      show ?thesis
      proof (cases "attempt < maxRetries c")
        case less: True
        let ?rec = "loop c fetch (attempt + 1) (nextDelay c delay) e"
        have unfold: "loop c fetch attempt delay lastError =
            prepend (Fetch attempt # notify c (attempt + 1) delay @ [Sleep delay]) ?rec"
          using less Continue by (rule loop_Continue)
        have mem: "Fetch k \<in> set (fst ?rec)"
          using "1.prems"(1) False unfolding unfold by (simp add: prepend_def)
        then have ne: "fst ?rec \<noteq> []" by auto
        have "snd ?rec = Inr r \<and> last (fst ?rec) = Fetch k"
          using "1.IH"(1) [OF le Continue less mem "1.prems"(2,3)] .
        then show ?thesis unfolding unfold using ne by (simp add: prepend_def)
      next
        case False
        with le have "attempt = maxRetries c" by simp
        with Continue \<open>k \<noteq> attempt\<close> "1.prems"(1) show ?thesis
          by (simp add: loop_Continue_last)
      qed
    qed
  qed
qed

lemma try_catch_Return_ok: "try_catch c attempt out = Return r \<Longrightarrow> ok r"
  by (auto simp: try_catch_def try_block_def split: outcome.splits if_splits)

lemma try_catch_not_ok_more:
  "\<not> ok r \<Longrightarrow> attempt < maxRetries c \<Longrightarrow>
   try_catch c attempt (Resolved r) = Continue (HttpError (status r) (statusText r))"
  by (simp add: try_catch_def try_block_def)

lemma try_catch_not_ok_cases:
  "\<not> ok r \<Longrightarrow>
   try_catch c attempt (Resolved r) = Continue (HttpError (status r) (statusText r))
   \<or> (attempt = maxRetries c
       \<and> try_catch c attempt (Resolved r) = Break (HttpError (status r) (statusText r)))"
  by (simp add: try_catch_def try_block_def)

lemma loop_head:
  "attempt \<le> maxRetries c \<Longrightarrow> Fetch attempt \<in> set (fst (loop c fetch attempt delay lastError))"
  by (subst loop.simps) (simp add: prepend_def split: flow.splits)

text \<open>Only a response that is ok is ever returned.\<close>

lemma loop_returns_ok:
  "snd (loop c fetch attempt delay lastError) = Inr r \<Longrightarrow> ok r"
proof (induction c fetch attempt delay lastError rule: loop.induct)
  case (1 c fetch attempt delay lastError)
  show ?case
  proof (cases "attempt \<le> maxRetries c")
    case False
    with "1.prems" show ?thesis by (simp add: loop_done)
  next
    case le: True
    show ?thesis
    proof (cases "try_catch c attempt (fetch attempt)")
      case (Return r')
      with le "1.prems" have "r' = r" by (simp add: loop_Return)
      with Return show ?thesis by (auto dest: try_catch_Return_ok)
    next
      case (Break e)
      with le "1.prems" show ?thesis by (simp add: loop_Break)
    next
      case (Continue e)
      show ?thesis
      proof (cases "attempt < maxRetries c")
        case less: True
        have "snd (loop c fetch (attempt + 1) (nextDelay c delay) e) = Inr r"
          using "1.prems" less Continue by (simp add: loop_Continue prepend_def)
        then show ?thesis by (rule "1.IH"(1) [OF le Continue less])
      next
        case False
        with le have "attempt = maxRetries c" by simp
        with Continue "1.prems" show ?thesis by (simp add: loop_Continue_last)
      qed
    qed
  qed
qed

text \<open>A response that is not ok, before the last attempt, is followed by the next attempt.\<close>

lemma loop_failure_not_last:
  "Fetch k \<in> set (fst (loop c fetch attempt delay lastError)) \<Longrightarrow>
   fetch k = Resolved r \<Longrightarrow> \<not> ok r \<Longrightarrow> k < maxRetries c \<Longrightarrow>
   Fetch (k + 1) \<in> set (fst (loop c fetch attempt delay lastError))"
proof (induction c fetch attempt delay lastError rule: loop.induct)
  case (1 c fetch attempt delay lastError)
  from "1.prems"(1) have le: "attempt \<le> maxRetries c"
    by (cases "attempt \<le> maxRetries c") (simp_all add: loop_done)
  show ?case
  proof (cases "k = attempt")
    case True
    then have cont: "try_catch c attempt (fetch attempt)
        = Continue (HttpError (status r) (statusText r))"
      using "1.prems" by (simp add: try_catch_not_ok_more)
    have less: "attempt < maxRetries c" using True "1.prems"(4) by simp
    have "Fetch (attempt + 1)
        \<in> set (fst (loop c fetch (attempt + 1) (nextDelay c delay)
              (HttpError (status r) (statusText r))))"
      using less by (intro loop_head) simp
    then show ?thesis
      using True less cont by (simp add: loop_Continue prepend_def)
  next
    case False
    show ?thesis
    proof (cases "try_catch c attempt (fetch attempt)")
      case (Return r')
      with le False "1.prems"(1) show ?thesis by (simp add: loop_Return)
    next
      case (Break e)
      with le False "1.prems"(1) show ?thesis by (simp add: loop_Break)
    next
      case (Continue e)
      show ?thesis
      proof (cases "attempt < maxRetries c")
        case less: True
        let ?rec = "loop c fetch (attempt + 1) (nextDelay c delay) e"
        have unfold: "loop c fetch attempt delay lastError =
            prepend (Fetch attempt # notify c (attempt + 1) delay @ [Sleep delay]) ?rec"
          using less Continue by (rule loop_Continue)
        have mem: "Fetch k \<in> set (fst ?rec)"
          using "1.prems"(1) False unfolding unfold by (simp add: prepend_def)
        have "Fetch (k + 1) \<in> set (fst ?rec)"
          using "1.IH"(1) [OF le Continue less mem "1.prems"(2,3,4)] .
        then show ?thesis unfolding unfold by (simp add: prepend_def)
      next
        case False
        with le have "attempt = maxRetries c" by simp
        with Continue \<open>k \<noteq> attempt\<close> "1.prems"(1) show ?thesis
          by (simp add: loop_Continue_last)
      qed
    qed
  qed
qed

text \<open>A response that is not ok, on the last attempt, raises the error made from it.\<close>

lemma loop_failure_last_raises:
  "Fetch k \<in> set (fst (loop c fetch attempt delay lastError)) \<Longrightarrow>
   fetch k = Resolved r \<Longrightarrow> \<not> ok r \<Longrightarrow> k = maxRetries c \<Longrightarrow>
   snd (loop c fetch attempt delay lastError) = Inl (HttpError (status r) (statusText r))"
proof (induction c fetch attempt delay lastError rule: loop.induct)
  case (1 c fetch attempt delay lastError)
  from "1.prems"(1) have le: "attempt \<le> maxRetries c"
    by (cases "attempt \<le> maxRetries c") (simp_all add: loop_done)
  show ?case
  proof (cases "k = attempt")
    case True
    then have last: "attempt = maxRetries c" using "1.prems"(4) by simp
    from try_catch_not_ok_cases [OF "1.prems"(3), of c attempt] "1.prems"(2) True
    show ?thesis
      using last le by (auto simp: loop_Continue_last loop_Break)
  next
    case False
    show ?thesis
    proof (cases "try_catch c attempt (fetch attempt)")
      case (Return r')
      with le False "1.prems"(1) show ?thesis by (simp add: loop_Return)
    next
      case (Break e)
      with le False "1.prems"(1) show ?thesis by (simp add: loop_Break)
    next
      case (Continue e)
      show ?thesis
      proof (cases "attempt < maxRetries c")
        case less: True
        let ?rec = "loop c fetch (attempt + 1) (nextDelay c delay) e"
        have unfold: "loop c fetch attempt delay lastError =
            prepend (Fetch attempt # notify c (attempt + 1) delay @ [Sleep delay]) ?rec"
          using less Continue by (rule loop_Continue)
        have mem: "Fetch k \<in> set (fst ?rec)"
          using "1.prems"(1) False unfolding unfold by (simp add: prepend_def)
        have "snd ?rec = Inl (HttpError (status r) (statusText r))"
          using "1.IH"(1) [OF le Continue less mem "1.prems"(2,3,4)] .
        then show ?thesis unfolding unfold by (simp add: prepend_def)
      next
        case False
        with le have "attempt = maxRetries c" by simp
        with Continue \<open>k \<noteq> attempt\<close> "1.prems"(1) show ?thesis
          by (simp add: loop_Continue_last)
      qed
    qed
  qed
qed

text \<open>
  C2 says that every status from 200 to 399 is a success. The test of line 36 is
  \<^verbatim>\<open>response.ok\<close>, which holds from 200 to 299 only; a 304 is neither returned nor a
  client error, so it is recorded and retried like a server error. With the default
  configuration and a server that always answers 304, four attempts are made and the
  invocation raises.
\<close>

theorem not_modified_is_retried:
  "fetchWithRetry defaults not_modified
   = ([Fetch 0, Sleep 1000, Fetch 1, Sleep 2000, Fetch 2, Sleep 4000, Fetch 3],
      Inl (HttpError 304 ''Not Modified''))"
  by (simp add: run_simps defaults_def not_modified_def not_modified_response_def)

text \<open>
  C2, amended. Take an attempt that is made (\<open>Fetch k\<close> is in the trace) and gets a
  response. When the status is from 200 to 299, the invocation returns that response, and
  that call of \<^verbatim>\<open>fetch\<close> is the last effect of the invocation: no attempt, wait or
  callback follows. When the status is from 300 to 399, the response is not a success: it
  is not what the invocation returns; before the last attempt the next attempt is made,
  and on the last attempt the error made from the response is raised. Whatever response
  an invocation returns has a status from 200 to 299.
\<close>

theorem success_2xx_returns_immediately:
  assumes "Fetch k \<in> set (fst (fetchWithRetry c fetch))"
    and "fetch k = Resolved r"
  shows "(200 \<le> status r \<and> status r < 300 \<longrightarrow>
            snd (fetchWithRetry c fetch) = Inr r
          \<and> last (fst (fetchWithRetry c fetch)) = Fetch k)
       \<and> (300 \<le> status r \<and> status r < 400 \<longrightarrow>
            snd (fetchWithRetry c fetch) \<noteq> Inr r
          \<and> (k < maxRetries c \<longrightarrow> Fetch (k + 1) \<in> set (fst (fetchWithRetry c fetch)))
          \<and> (k = maxRetries c \<longrightarrow>
               snd (fetchWithRetry c fetch) = Inl (HttpError (status r) (statusText r))))
       \<and> (\<forall>r'. snd (fetchWithRetry c fetch) = Inr r' \<longrightarrow>
            200 \<le> status r' \<and> status r' < 300)"
proof (intro conjI impI allI)
  assume "200 \<le> status r \<and> status r < 300"
  then have "ok r" by (simp add: ok_def)
  with assms have both: "snd (fetchWithRetry c fetch) = Inr r
       \<and> last (fst (fetchWithRetry c fetch)) = Fetch k"
    unfolding fetchWithRetry_def by (rule loop_success_last)
  from both show "snd (fetchWithRetry c fetch) = Inr r" ..
  from both show "last (fst (fetchWithRetry c fetch)) = Fetch k" ..
next
  assume "300 \<le> status r \<and> status r < 400"
  then have nok: "\<not> ok r" by (simp add: ok_def)
  show "snd (fetchWithRetry c fetch) \<noteq> Inr r"
    using nok loop_returns_ok [of c fetch 0 "initialDelay c" Undefined r]
    by (auto simp: fetchWithRetry_def)
  show "Fetch (k + 1) \<in> set (fst (fetchWithRetry c fetch))" if "k < maxRetries c"
    using assms nok that unfolding fetchWithRetry_def by (rule loop_failure_not_last)
  show "snd (fetchWithRetry c fetch) = Inl (HttpError (status r) (statusText r))"
    if "k = maxRetries c"
    using assms nok that unfolding fetchWithRetry_def by (rule loop_failure_last_raises)
next
  fix r' assume "snd (fetchWithRetry c fetch) = Inr r'"
  then have "ok r'" unfolding fetchWithRetry_def by (rule loop_returns_ok)
  then show "200 \<le> status r'" and "status r' < 300" by (simp_all add: ok_def)
qed

text \<open>
  Two instances: two server errors, then a 204 on the third attempt, which is returned; and
  a 304 on the first attempt of four, which is not returned and is followed by the second
  attempt.
\<close>

theorem success_2xx_returns_immediately_witness:
  "fetchWithRetry loadStatus_retryConfig (two_errors_then no_content)
   = ([Fetch 0, OnRetry 1 1000, Sleep 1000, Fetch 1, OnRetry 2 2000, Sleep 2000, Fetch 2],
      Inr no_content)
   \<and> Fetch 1 \<in> set (fst (fetchWithRetry defaults not_modified))
   \<and> snd (fetchWithRetry defaults not_modified) \<noteq> Inr not_modified_response"
proof -
  let ?run = "fetchWithRetry loadStatus_retryConfig (two_errors_then no_content)"
  have tr: "fst ?run =
      [Fetch 0, OnRetry 1 1000, Sleep 1000, Fetch 1, OnRetry 2 2000, Sleep 2000, Fetch 2]"
    by (simp add: run_simps loadStatus_retryConfig_def two_errors_then_def
        internal_error_def no_content_def)
  have h1: "Fetch 2 \<in> set (fst ?run)"
    unfolding tr by simp
  have h2: "two_errors_then no_content 2 = Resolved no_content"
    by (simp add: two_errors_then_def)
  have s: "200 \<le> status no_content \<and> status no_content < 300"
    by (simp add: no_content_def)
  have first: "snd ?run = Inr no_content"
    using success_2xx_returns_immediately [OF h1 h2] s by blast
  have g1: "Fetch 0 \<in> set (fst (fetchWithRetry defaults not_modified))"
    unfolding fetchWithRetry_def by (rule loop_head) simp
  have g2: "not_modified 0 = Resolved not_modified_response"
    by (simp add: not_modified_def)
  have t: "300 \<le> status not_modified_response \<and> status not_modified_response < 400"
    by (simp add: not_modified_response_def)
  have more: "(0::nat) < maxRetries defaults" by (simp add: defaults_def)
  have second: "Fetch (0 + 1) \<in> set (fst (fetchWithRetry defaults not_modified))
      \<and> snd (fetchWithRetry defaults not_modified) \<noteq> Inr not_modified_response"
    using success_2xx_returns_immediately [OF g1 g2] t more by blast
  from first tr second show ?thesis by (simp add: prod_eq_iff)
qed

section \<open>Delays\<close>

lemma loop_waits:
  "0 \<le> delay \<Longrightarrow> delay \<le> maxDelay c \<Longrightarrow> 1 \<le> backoffMultiplier c \<Longrightarrow>
   sorted (waits (fst (loop c fetch attempt delay lastError)))
   \<and> (\<forall>d \<in> set (waits (fst (loop c fetch attempt delay lastError))).
         delay \<le> d \<and> d \<le> maxDelay c)"
proof (induction c fetch attempt delay lastError rule: loop.induct)
  case (1 c fetch attempt delay lastError)
  show ?case
  proof (cases "attempt < maxRetries c \<and> (\<exists>e. try_catch c attempt (fetch attempt) = Continue e)")
    case True
    then obtain e where less: "attempt < maxRetries c"
      and cont: "try_catch c attempt (fetch attempt) = Continue e"
      by blast
    let ?d' = "nextDelay c delay"
    let ?rest = "waits (fst (loop c fetch (attempt + 1) ?d' e))"
    have "delay * 1 \<le> delay * backoffMultiplier c"
      using "1.prems" by (intro mult_left_mono) simp_all
    then have up: "delay \<le> ?d'"
      using "1.prems" by (simp add: nextDelay_def)
    have bound: "?d' \<le> maxDelay c"
      by (simp add: nextDelay_def)
    have le: "attempt \<le> maxRetries c" using less by simp
    have ih: "sorted ?rest \<and> (\<forall>d \<in> set ?rest. ?d' \<le> d \<and> d \<le> maxDelay c)"
      using "1.IH"(1) [OF le cont less] up bound "1.prems" by simp
    have eq: "waits (fst (loop c fetch attempt delay lastError)) = delay # ?rest"
      using less cont by (simp add: loop_Continue prepend_def waits_append)
    show ?thesis
      unfolding eq using ih up "1.prems" by auto
  next
    case False
    then have "waits (fst (loop c fetch attempt delay lastError)) = []"
      by (subst loop.simps) (auto simp: loop_done prepend_def split: flow.splits)
    then show ?thesis by simp
  qed
qed

lemma loop_waits_iterates:
  "waits (fst (loop c fetch attempt delay lastError)) =
     map (\<lambda>i. (nextDelay c ^^ i) delay)
       [0..<length (waits (fst (loop c fetch attempt delay lastError)))]"
proof (induction c fetch attempt delay lastError rule: loop.induct)
  case (1 c fetch attempt delay lastError)
  show ?case
  proof (cases "attempt < maxRetries c \<and> (\<exists>e. try_catch c attempt (fetch attempt) = Continue e)")
    case True
    then obtain e where less: "attempt < maxRetries c"
      and cont: "try_catch c attempt (fetch attempt) = Continue e"
      by blast
    let ?d' = "nextDelay c delay"
    let ?rest = "waits (fst (loop c fetch (attempt + 1) ?d' e))"
    have le: "attempt \<le> maxRetries c" using less by simp
    have ih: "?rest = map (\<lambda>i. (nextDelay c ^^ i) ?d') [0..<length ?rest]"
      using "1.IH"(1) [OF le cont less] .
    have eq: "waits (fst (loop c fetch attempt delay lastError)) = delay # ?rest"
      using less cont by (simp add: loop_Continue prepend_def waits_append)
    have "map (\<lambda>i. (nextDelay c ^^ i) delay) [0..<length (delay # ?rest)]
        = delay # map (\<lambda>i. (nextDelay c ^^ i) ?d') [0..<length ?rest]"
      by (simp add: map_upt_Suc funpow_swap1 del: upt_Suc)
    with ih show ?thesis unfolding eq by simp
  next
    case False
    then have "waits (fst (loop c fetch attempt delay lastError)) = []"
      by (subst loop.simps) (auto simp: loop_done prepend_def split: flow.splits)
    then show ?thesis by simp
  qed
qed

text \<open>
  C3: for a configuration whose multiplier is at least 1 and whose initial delay (a
  duration: not negative) is at most the maximal delay, the delays waited are the initial
  delay, then \<open>nextDelay\<close> of it, and so on: the \<open>i\<close>-th wait is \<open>nextDelay\<close> applied
  \<open>i\<close> times to the initial delay. They never decrease and none exceeds the maximal
  delay.
\<close>

theorem delays_nondecreasing_bounded:
  assumes "1 \<le> backoffMultiplier c"
    and "initialDelay c \<le> maxDelay c"
    and "0 \<le> initialDelay c"
  shows "waits (fst (fetchWithRetry c fetch)) =
           map (\<lambda>i. (nextDelay c ^^ i) (initialDelay c))
             [0..<length (waits (fst (fetchWithRetry c fetch)))]
         \<and> sorted (waits (fst (fetchWithRetry c fetch)))
         \<and> (\<forall>d \<in> set (waits (fst (fetchWithRetry c fetch))). d \<le> maxDelay c)"
  unfolding fetchWithRetry_def
  using loop_waits [OF assms(3) assms(2) assms(1), of fetch 0 Undefined]
    loop_waits_iterates [of c fetch 0 "initialDelay c" Undefined]
  by blast

text \<open>An instance where the third delay is cut at the maximal delay.\<close>

theorem delays_nondecreasing_bounded_witness:
  "1 \<le> backoffMultiplier low_ceiling
   \<and> initialDelay low_ceiling \<le> maxDelay low_ceiling
   \<and> 0 \<le> initialDelay low_ceiling
   \<and> waits (fst (fetchWithRetry low_ceiling unreachable)) = [1000, 2000, 3000]
   \<and> sorted (waits (fst (fetchWithRetry low_ceiling unreachable)))
   \<and> Max (set (waits (fst (fetchWithRetry low_ceiling unreachable)))) \<le> maxDelay low_ceiling"
proof -
  have h1: "1 \<le> backoffMultiplier low_ceiling" by (simp add: low_ceiling_def)
  have h2: "initialDelay low_ceiling \<le> maxDelay low_ceiling" by (simp add: low_ceiling_def)
  have h3: "0 \<le> initialDelay low_ceiling" by (simp add: low_ceiling_def)
  have w: "waits (fst (fetchWithRetry low_ceiling unreachable)) = [1000, 2000, 3000]"
    by (simp add: run_simps low_ceiling_def unreachable_def)
  from delays_nondecreasing_bounded [OF h1 h2 h3, of unreachable] w h1 h2 h3
  show ?thesis by (simp add: low_ceiling_def)
qed

section \<open>Number of attempts\<close>

lemma loop_attempts:
  "attempt \<le> maxRetries c + 1 \<Longrightarrow>
   \<exists>m. attempts (fst (loop c fetch attempt delay lastError)) = [attempt..<m]
     \<and> attempt \<le> m \<and> m \<le> maxRetries c + 1"
proof (induction c fetch attempt delay lastError rule: loop.induct)
  case (1 c fetch attempt delay lastError)
  show ?case
  proof (cases "attempt \<le> maxRetries c")
    case False
    then show ?thesis using "1.prems"
      by (auto simp: loop_done intro!: exI [of _ attempt])
  next
    case True
    show ?thesis
    proof (cases "try_catch c attempt (fetch attempt)")
      case (Return r)
      have "attempts [Fetch attempt] = [attempt..<attempt + 1]" by simp
      with True Return show ?thesis
        by (metis loop_Return fst_conv le_add1 add_le_mono1)
    next
      case (Break e)
      have "attempts [Fetch attempt] = [attempt..<attempt + 1]" by simp
      with True Break show ?thesis
        by (metis loop_Break fst_conv le_add1 add_le_mono1)
    next
      case (Continue e)
      show ?thesis
      proof (cases "attempt < maxRetries c")
        case less: True
        from "1.IH"(1) [OF True Continue less] less
        obtain m where m:
          "attempts (fst (loop c fetch (attempt + 1) (nextDelay c delay) e)) = [attempt + 1..<m]"
          "attempt + 1 \<le> m" "m \<le> maxRetries c + 1"
          by auto
        have "attempts (fst (loop c fetch attempt delay lastError)) = attempt # [attempt + 1..<m]"
          using less Continue m(1) by (simp add: loop_Continue prepend_def attempts_append)
        also have "\<dots> = [attempt..<m]" using m(2) by (simp add: upt_conv_Cons)
        finally show ?thesis using m by auto
      next
        case False
        with True have eq: "attempt = maxRetries c" by simp
        have "attempts [Fetch attempt] = [attempt..<attempt + 1]" by simp
        with eq Continue show ?thesis
          by (metis loop_Continue_last fst_conv le_add1 order_refl)
      qed
    qed
  qed
qed

lemma loop_attempts_nonempty:
  "attempt \<le> maxRetries c \<Longrightarrow> attempts (fst (loop c fetch attempt delay lastError)) \<noteq> []"
  by (subst loop.simps) (simp add: prepend_def split: flow.splits)

text \<open>
  C4: the loop is a total function (its recursion ends because
  \<open>maxRetries + 1 - attempt\<close> decreases), so every invocation ends with a response or a
  thrown value. The attempts made are numbered 0, 1, 2, ... without a gap; there is at
  least one and there are at most \<open>maxRetries + 1\<close>, so the last number is at most
  \<open>maxRetries\<close>.
\<close>

theorem fetchWithRetry_attempts_bounded:
  "attempts (fst (fetchWithRetry c fetch)) =
     [0..<length (attempts (fst (fetchWithRetry c fetch)))]
   \<and> 1 \<le> length (attempts (fst (fetchWithRetry c fetch)))
   \<and> length (attempts (fst (fetchWithRetry c fetch))) \<le> maxRetries c + 1"
proof -
  let ?as = "attempts (fst (fetchWithRetry c fetch))"
  obtain m where m: "?as = [0..<m]" "m \<le> maxRetries c + 1"
    using loop_attempts [of 0 c fetch "initialDelay c" Undefined]
    by (auto simp: fetchWithRetry_def)
  have "?as \<noteq> []"
    by (simp add: fetchWithRetry_def loop_attempts_nonempty)
  with m show ?thesis by (cases m) auto
qed

text \<open>An instance: with three retries and no network, the attempts are 0, 1, 2 and 3.\<close>

theorem fetchWithRetry_attempts_bounded_witness:
  "attempts (fst (fetchWithRetry loadStatus_retryConfig unreachable)) = [0, 1, 2, 3]"
proof -
  have "length (attempts (fst (fetchWithRetry loadStatus_retryConfig unreachable))) = 4"
    by (simp add: run_simps loadStatus_retryConfig_def unreachable_def)
  with fetchWithRetry_attempts_bounded [of loadStatus_retryConfig unreachable]
  show ?thesis by (simp add: upt_rec)
qed

section \<open>Server errors\<close>

text \<open>
  C5: with \<open>maxRetries = 3\<close> and a response with a status from 500 to 599 at each of
  the attempts 0 to 3, the invocation makes exactly these four attempts. After each of the
  first three it calls the callback, when there is one, with the number of the next attempt
  and the delay, and waits; the fourth attempt is the last effect, with no wait after it. The
  value raised is the error made from the response of the fourth attempt.
\<close>

theorem all_5xx_three_retries:
  assumes "maxRetries c = 3"
    and "\<forall>k\<le>3. fetch k = Resolved (rs k) \<and> 500 \<le> status (rs k) \<and> status (rs k) < 600"
  shows "fetchWithRetry c fetch =
     (Fetch 0 # notify c 1 (initialDelay c) @
      Sleep (initialDelay c) # Fetch 1 # notify c 2 (nextDelay c (initialDelay c)) @
      Sleep (nextDelay c (initialDelay c)) # Fetch 2 #
      notify c 3 (nextDelay c (nextDelay c (initialDelay c))) @
      [Sleep (nextDelay c (nextDelay c (initialDelay c))), Fetch 3],
      Inl (HttpError (status (rs 3)) (statusText (rs 3))))"
proof -
  have tc: "try_catch c k (fetch k) = Continue (HttpError (status (rs k)) (statusText (rs k)))"
    if "k \<le> 3" for k
    using assms(2) that by (simp add: try_catch_5xx)
  have s3: "loop c fetch 3 d e = ([Fetch 3], Inl (HttpError (status (rs 3)) (statusText (rs 3))))"
    for d e
    using assms(1) tc [of 3] by (simp add: loop_last eval_nat_numeral)
  have s2: "loop c fetch 2 d e =
      (Fetch 2 # notify c 3 d @ [Sleep d, Fetch 3],
       Inl (HttpError (status (rs 3)) (statusText (rs 3))))" for d e
    using assms(1) tc [of 2] s3 by (simp add: loop_step prepend_def eval_nat_numeral)
  have s1: "loop c fetch 1 d e =
      (Fetch 1 # notify c 2 d @ Sleep d # Fetch 2 # notify c 3 (nextDelay c d) @
         [Sleep (nextDelay c d), Fetch 3],
       Inl (HttpError (status (rs 3)) (statusText (rs 3))))" for d e
    using assms(1) tc [of 1] s2 by (simp add: loop_step prepend_def eval_nat_numeral)
  show ?thesis
    unfolding fetchWithRetry_def
    using assms(1) tc [of 0] s1 by (simp add: loop_step prepend_def eval_nat_numeral)
qed

text \<open>
  An instance with a callback, where the statuses are 500, 501, 502 and 503: three calls of
  the callback, and the error of the fourth response.
\<close>

theorem all_5xx_three_retries_witness:
  "fetchWithRetry loadStatus_retryConfig always_server_error
   = ([Fetch 0, OnRetry 1 1000, Sleep 1000, Fetch 1, OnRetry 2 2000, Sleep 2000,
       Fetch 2, OnRetry 3 4000, Sleep 4000, Fetch 3],
      Inl (HttpError 503 ''Server Error''))"
  using all_5xx_three_retries [of loadStatus_retryConfig always_server_error server_errors]
  by (simp add: loadStatus_retryConfig_def always_server_error_def server_errors_def
      notify_def nextDelay_def)

text \<open>
  C6: with the default delays (first delay 1000, multiplier 2, and a maximal delay of at
  least 2000, as the default 30000 is), at least two retries and a callback, the statuses
  500, 500, 200 give: a call of the callback with (1, 1000), a call with (2, 2000), no other
  call, and the third response returned.
\<close>

theorem retry_twice_then_success:
  assumes "2 \<le> maxRetries c"
    and "initialDelay c = 1000" and "backoffMultiplier c = 2" and "2000 \<le> maxDelay c"
    and "onRetry c"
    and "fetch 0 = Resolved r0" and "status r0 = 500"
    and "fetch 1 = Resolved r1" and "status r1 = 500"
    and "fetch 2 = Resolved r2" and "status r2 = 200"
  shows "fetchWithRetry c fetch =
     ([Fetch 0, OnRetry 1 1000, Sleep 1000, Fetch 1, OnRetry 2 2000, Sleep 2000, Fetch 2],
      Inr r2)"
proof -
  have t0: "try_catch c 0 (fetch 0) = Continue (HttpError 500 (statusText r0))"
    using assms(6,7) try_catch_5xx [of r0 c 0] by simp
  have t1: "try_catch c 1 (fetch 1) = Continue (HttpError 500 (statusText r1))"
    using assms(8,9) try_catch_5xx [of r1 c 1] by simp
  have t2: "try_catch c 2 (fetch 2) = Return r2"
    using assms(10,11) by (simp add: try_catch_ok ok_def)
  have s2: "loop c fetch 2 d e = ([Fetch 2], Inr r2)" for d e
    using assms(1) t2 by (simp add: loop_Return)
  have s1: "loop c fetch 1 d e = (Fetch 1 # notify c 2 d @ [Sleep d, Fetch 2], Inr r2)" for d e
    using assms(1) t1 s2 by (simp add: loop_step prepend_def eval_nat_numeral)
  have s0: "loop c fetch 0 d e =
      (Fetch 0 # notify c 1 d @ Sleep d # Fetch 1 # notify c 2 (nextDelay c d) @
         [Sleep (nextDelay c d), Fetch 2], Inr r2)" for d e
    using assms(1) t0 s1 by (simp add: loop_step prepend_def eval_nat_numeral)
  show ?thesis
    unfolding fetchWithRetry_def s0
    using assms(2-5) by (simp add: notify_def nextDelay_def)
qed

text \<open>An instance: the defaults with a callback.\<close>

theorem retry_twice_then_success_witness:
  "fetchWithRetry defaults_with_callback (two_errors_then ok_empty_object)
   = ([Fetch 0, OnRetry 1 1000, Sleep 1000, Fetch 1, OnRetry 2 2000, Sleep 2000, Fetch 2],
      Inr ok_empty_object)"
  using retry_twice_then_success [of defaults_with_callback "two_errors_then ok_empty_object"
      internal_error internal_error ok_empty_object]
  by (simp add: defaults_with_callback_def defaults_def two_errors_then_def
      internal_error_def ok_empty_object_def)

section \<open>No retries\<close>

text \<open>
  C7: with \<open>maxRetries = 0\<close> the only effect of an invocation is one call of
  \<^verbatim>\<open>fetch\<close>: no wait and no call of the callback. A response that is ok is returned; a
  rejection is raised as it is; any other response raises the error made from it.
\<close>

theorem single_attempt_when_no_retries:
  assumes "maxRetries c = 0"
  shows "fetchWithRetry c fetch =
     ([Fetch 0],
      case fetch 0 of
        Rejected e \<Rightarrow> Inl e
      | Resolved r \<Rightarrow>
          if ok r then Inr r else Inl (HttpError (status r) (statusText r)))"
proof (cases "try_catch c 0 (fetch 0)")
  case (Return r)
  then have "fetchWithRetry c fetch = ([Fetch 0], Inr r)"
    by (simp add: fetchWithRetry_def loop_Return)
  moreover from Return have "fetch 0 = Resolved r \<and> ok r"
    using assms
    by (auto simp: try_catch_def try_block_def split: outcome.splits if_splits)
  ultimately show ?thesis by simp
next
  case (Break e)
  then have "fetchWithRetry c fetch = ([Fetch 0], Inl e)"
    by (simp add: fetchWithRetry_def loop_Break)
  moreover from Break have
    "(case fetch 0 of Rejected e \<Rightarrow> Inl e
      | Resolved r \<Rightarrow> if ok r then Inr r else Inl (HttpError (status r) (statusText r)))
     = (Inl e :: thrown + response)"
    by (auto simp: try_catch_def try_block_def split: outcome.splits if_splits)
  ultimately show ?thesis by simp
next
  case (Continue e)
  then have "fetchWithRetry c fetch = ([Fetch 0], Inl e)"
    using assms by (simp add: fetchWithRetry_def loop_Continue_last)
  moreover from Continue have
    "(case fetch 0 of Rejected e \<Rightarrow> Inl e
      | Resolved r \<Rightarrow> if ok r then Inr r else Inl (HttpError (status r) (statusText r)))
     = (Inl e :: thrown + response)"
    by (auto simp: try_catch_def try_block_def split: outcome.splits if_splits)
  ultimately show ?thesis by simp
qed

text \<open>An instance: a 503 with no retries and a callback that is never called.\<close>

theorem single_attempt_when_no_retries_witness:
  "fetchWithRetry no_retries unavailable
   = ([Fetch 0], Inl (HttpError 503 ''Service Unavailable''))"
  using single_attempt_when_no_retries [of no_retries unavailable]
  by (simp add: no_retries_def defaults_def unavailable_def ok_def)

section \<open>Parsing the body\<close>

text \<open>
  C9: when the retry sequence ends with a response, the body is parsed once, after every
  effect of the retry sequence (which itself never parses), and nothing follows the
  parsing: a body that does not parse raises the parse error to the caller with no further
  attempt, wait or call of the callback; a body that parses gives the parsed value.
\<close>

theorem json_parsed_once_after_retries:
  assumes "fetchWithRetry c fetch = (tr, Inr r)"
  shows "Json \<notin> set tr
     \<and> fst (fetchJsonWithRetry parse c fetch) = tr @ [Json]
     \<and> (parse (body r) = None \<longrightarrow>
          snd (fetchJsonWithRetry parse c fetch) = Inl SyntaxError)
     \<and> (\<forall>v. parse (body r) = Some v \<longrightarrow>
          snd (fetchJsonWithRetry parse c fetch) = Inr v)"
proof -
  have "Json \<notin> set (fst (fetchWithRetry c fetch))"
    unfolding fetchWithRetry_def by (rule Json_notin_loop)
  with assms show ?thesis
    by (simp add: fetchJsonWithRetry_def)
qed

text \<open>An instance: a 503, then a 200 whose body is a page of HTML.\<close>

theorem json_parsed_once_after_retries_witness:
  "fetchJsonWithRetry parse_empty_object loadStatus_retryConfig unavailable_then_html
   = ([Fetch 0, OnRetry 1 1000, Sleep 1000, Fetch 1, Json], Inl SyntaxError)"
proof -
  have h: "fetchWithRetry loadStatus_retryConfig unavailable_then_html
     = ([Fetch 0, OnRetry 1 1000, Sleep 1000, Fetch 1], Inr ok_html)"
    by (simp add: run_simps loadStatus_retryConfig_def unavailable_then_html_def ok_html_def)
  from json_parsed_once_after_retries [OF h, of parse_empty_object]
  show ?thesis
    by (simp add: prod_eq_iff parse_empty_object_def ok_html_def)
qed

text \<open>When the retry sequence raises, nothing is parsed and the same value is raised.\<close>

lemma fetchJson_failure_propagates:
  "fetchWithRetry c fetch = (tr, Inl e) \<Longrightarrow> fetchJsonWithRetry parse c fetch = (tr, Inl e)"
  by (simp add: fetchJsonWithRetry_def)

section \<open>The status element\<close>

lemma classMap_Own_status_class:
  "classMap t = Own cls \<Longrightarrow> cls \<in> set status_classes"
  by (auto simp: classMap_def status_classes_def split: if_splits)

lemma active_after_remove:
  "filter (\<lambda>t. t \<in> set status_classes) (classList_remove status_classes cl) = []"
  by (simp add: classList_remove_def)

lemma add_after_remove:
  "cls \<in> set status_classes \<Longrightarrow>
   classList_add cls (classList_remove status_classes cl)
     = classList_remove status_classes cl @ [cls]"
  by (simp add: classList_add_def classList_remove_def)

lemma showStatus_existing:
  assumes "doc elementId = Some el"
  shows "fst (showStatus doc elementId message type_arg) =
     doc(elementId \<mapsto>
       \<lparr>textContent = message,
        classList = classList_remove status_classes (classList el) @
          (case classMap (case type_arg of None \<Rightarrow> ''info'' | Some t \<Rightarrow> t) of
             Own cls \<Rightarrow> [cls] | Inherited \<Rightarrow> [] | Absent \<Rightarrow> [])\<rparr>)"
  using assms
  by (cases el)
    (auto simp: showStatus_def Let_def add_after_remove classMap_Own_status_class
      split: property.splits)

text \<open>
  C8: after a call on an element that exists, the element has the message as its text, and
  its classes are the ones it had without the five status classes, followed by the class of
  the kind when the kind is one of the five keys and by nothing otherwise. So the status
  classes it carries are that one class or none: at most one. After a call with the kind
  \<^verbatim>\<open>running\<close> and then a call with the kind \<^verbatim>\<open>error\<close>, the only status class is
  \<^verbatim>\<open>status-error\<close>.
\<close>

theorem showStatus_one_status_class:
  assumes "doc elementId = Some el"
  shows "\<exists>el'. fst (showStatus doc elementId message type_arg) elementId = Some el'
     \<and> textContent el' = message
     \<and> classList el' = classList_remove status_classes (classList el) @
          (case classMap (case type_arg of None \<Rightarrow> ''info'' | Some t \<Rightarrow> t) of
             Own cls \<Rightarrow> [cls] | Inherited \<Rightarrow> [] | Absent \<Rightarrow> [])
     \<and> active el' =
          (case classMap (case type_arg of None \<Rightarrow> ''info'' | Some t \<Rightarrow> t) of
             Own cls \<Rightarrow> [cls] | Inherited \<Rightarrow> [] | Absent \<Rightarrow> [])
     \<and> length (active el') \<le> 1
     \<and> (\<exists>el''. fst (showStatus (fst (showStatus doc elementId message (Some ''running'')))
                   elementId message' (Some ''error'')) elementId = Some el''
           \<and> active el'' = [''status-error''])"
proof -
  let ?kind = "case type_arg of None \<Rightarrow> ''info'' | Some t \<Rightarrow> t"
  let ?added = "case classMap ?kind of Own cls \<Rightarrow> [cls] | Inherited \<Rightarrow> [] | Absent \<Rightarrow> []"
  let ?el' = "\<lparr>textContent = message,
     classList = classList_remove status_classes (classList el) @ ?added\<rparr>"
  have at: "fst (showStatus doc elementId message type_arg) elementId = Some ?el'"
    by (simp add: showStatus_existing [of doc elementId el, OF assms])
  have act: "active ?el' = ?added"
    by (auto simp: active_def active_after_remove dest: classMap_Own_status_class
        split: property.splits)
  have len: "length (active ?el') \<le> 1"
    unfolding act by (simp split: property.splits)
  let ?doc1 = "fst (showStatus doc elementId message (Some ''running''))"
  obtain el1 where el1: "?doc1 elementId = Some el1"
    by (simp add: showStatus_existing [of doc elementId el, OF assms])
  let ?el2 = "\<lparr>textContent = message',
     classList = classList_remove status_classes (classList el1) @ [''status-error'']\<rparr>"
  have at2: "fst (showStatus ?doc1 elementId message' (Some ''error'')) elementId = Some ?el2"
    by (simp add: showStatus_existing [of ?doc1 elementId el1, OF el1] classMap_def)
  have act2: "active ?el2 = [''status-error'']"
    by (simp add: active_def active_after_remove) (simp add: status_classes_def)
  from at act len at2 act2 show ?thesis
    by (intro exI [of _ ?el'] conjI exI [of _ ?el2]) simp_all
qed

text \<open>
  An instance: the status element shows a retry warning; the status arrives as
  \<^verbatim>\<open>running\<close>, and then an error is shown.
\<close>

theorem showStatus_one_status_class_witness:
  "page ''server-status'' =
     Some \<lparr>textContent = ''Loading...'', classList = [''value'', ''status-warning'']\<rparr>
   \<and> fst (showStatus page ''server-status'' ''running'' (Some ''running'')) ''server-status''
       = Some \<lparr>textContent = ''running'', classList = [''value'', ''status-running'']\<rparr>
   \<and> fst (showStatus
         (fst (showStatus page ''server-status'' ''running'' (Some ''running'')))
         ''server-status'' ''down'' (Some ''error'')) ''server-status''
       = Some \<lparr>textContent = ''down'', classList = [''value'', ''status-error'']\<rparr>"
proof -
  have h: "page ''server-status'' =
     Some \<lparr>textContent = ''Loading...'', classList = [''value'', ''status-warning'']\<rparr>"
    by (simp add: page_def)
  from showStatus_one_status_class [of page "''server-status''" _ "''running''"
      "Some ''running''" "''down''", OF h]
  show ?thesis
    using h
    by (simp add: showStatus_def Let_def classMap_def classList_remove_def classList_add_def
        status_classes_def page_def)
qed

text \<open>
  C10: when the id resolves to no element, the call returns normally and the document is
  the one it was given: no text and no class of any element has changed.
\<close>

theorem showStatus_missing_target:
  "doc elementId = None \<Longrightarrow> showStatus doc elementId message type_arg = (doc, None)"
  by (simp add: showStatus_def)

text \<open>An instance: the page has no version element.\<close>

theorem showStatus_missing_target_witness:
  "page ''server-version'' = None
   \<and> showStatus page ''server-version'' ''1.2.3'' None = (page, None)"
proof -
  have h: "page ''server-version'' = None" by (simp add: page_def)
  from showStatus_missing_target [of page "''server-version''" "''1.2.3''" None, OF h] h
  show ?thesis by simp
qed

end
